theory Spec2Isabelle
  imports Complex_Main
begin

section \<open>Data model\<close>

text \<open>
  Exceptions of the Python source that the modelled functions can raise.
\<close>

datatype error =
    KeyError string
  | ZeroDivisionError
  | UnboundLocalError
  | IndexError

text \<open>
  A flattened score is the ordered list of its \<open>GeneralNote\<close> elements. The source
  distinguishes \<open>m21.note.Note\<close> (a MIDI pitch number and a duration) and
  \<open>m21.note.Rest\<close> (a duration); every other kind of event (a chord, an unpitched
  note) is \<open>Chord\<close>. The duration is \<open>duration.quarterLength\<close>, which the library
  keeps as an exact fraction or as a binary float holding such a fraction: it is modelled
  as a rational number, and so is the time step.
\<close>

datatype event =
    Note int rat
  | Rest rat
  | Chord rat

type_synonym score = "event list"

fun quarterLength :: "event \<Rightarrow> rat" where
  "quarterLength (Note p d) = d"
| "quarterLength (Rest d) = d"
| "quarterLength (Chord d) = d"

fun is_Rest :: "event \<Rightarrow> bool" where
  "is_Rest (Rest d) = True"
| "is_Rest e = False"


text \<open>
  \<open>stream.notes\<close> iterates over the elements that are not rests (notes and chords);
  \<open>stream.notesAndRests\<close> iterates over all of them.
\<close>

definition stream_notes :: "score \<Rightarrow> event list" where
  "stream_notes song = filter (\<lambda>e. \<not> is_Rest e) song"

definition stream_notesAndRests :: "score \<Rightarrow> event list" where
  "stream_notesAndRests song = song"

definition ACCEPTABLE_DURATIONS :: "rat list" where
  "ACCEPTABLE_DURATIONS = [1 / 4, 1 / 2, 3 / 4, 1, 3 / 2, 2, 3, 4]"

definition SEQUENCE_LENGTH :: int where
  "SEQUENCE_LENGTH = 64"

section \<open>Duration filter\<close>

text \<open>
  \<^verbatim>\<open>
  for note in song.flatten().notes:
      if note.duration.quarterLength not in acceptable_durations:
          return False
  return True
  \<close>
\<close>

fun acceptable_loop :: "event list \<Rightarrow> rat list \<Rightarrow> bool" where
  "acceptable_loop [] acceptable_durations = True"
| "acceptable_loop (note # rest) acceptable_durations =
     (if quarterLength note \<notin> set acceptable_durations then False
      else acceptable_loop rest acceptable_durations)"

definition has_acceptable_note_durations :: "score \<Rightarrow> rat list \<Rightarrow> bool" where
  "has_acceptable_note_durations song acceptable_durations =
     acceptable_loop (stream_notes song) acceptable_durations"

section \<open>Strings\<close>

text \<open>
  A Python string is modelled as a list of characters with code points below 256.
  \<open>str.split()\<close> without arguments cuts at runs of whitespace characters and returns
  no empty token; the whitespace characters below 256 are the code points 9 to 13, 28 to
  32, 133 and 160.
\<close>

definition is_space :: "char \<Rightarrow> bool" where
  "is_space c \<longleftrightarrow> (of_char c :: nat) \<in> {9, 10, 11, 12, 13, 28, 29, 30, 31, 32, 133, 160}"

fun split_from :: "string \<Rightarrow> string \<Rightarrow> string list" where
  "split_from cur [] = (if cur = [] then [] else [cur])"
| "split_from cur (c # cs) =
     (if is_space c then (if cur = [] then split_from [] cs else cur # split_from [] cs)
      else split_from (cur @ [c]) cs)"

definition py_split :: "string \<Rightarrow> string list" where
  "py_split s = split_from [] s"

fun py_join :: "string \<Rightarrow> string list \<Rightarrow> string" where
  "py_join sep [] = []"
| "py_join sep [x] = x"
| "py_join sep (x # y # ys) = x @ sep @ py_join sep (y # ys)"

text \<open>\<open>s * n\<close> for a string \<open>s\<close> and an integer \<open>n\<close>: empty when \<open>n\<close> is not positive.\<close>

definition py_repeat :: "string \<Rightarrow> int \<Rightarrow> string" where
  "py_repeat s n = concat (replicate (nat n) s)"

text \<open>\<open>str(n)\<close> for an integer: decimal digits, a minus sign before a negative number.\<close>

definition digit_char :: "nat \<Rightarrow> char" where
  "digit_char d = char_of (48 + d)"

fun str_nat :: "nat \<Rightarrow> string" where
  "str_nat n = (if n < 10 then [digit_char n] else str_nat (n div 10) @ [digit_char (n mod 10)])"

definition str_int :: "int \<Rightarrow> string" where
  "str_int i = (if i < 0 then CHR ''-'' # str_nat (nat (- i)) else str_nat (nat i))"

section \<open>Time-series encoder\<close>

text \<open>
  The values appended to \<open>encoded_song\<close>: a MIDI number or a string. \<open>map(str, ...)\<close>
  prints each of them.
\<close>

datatype symbol = Midi int | Str string

fun py_str :: "symbol \<Rightarrow> string" where
  "py_str (Midi n) = str_int n"
| "py_str (Str s) = s"

text \<open>\<open>int(x)\<close> truncates towards zero.\<close>

definition py_int :: "rat \<Rightarrow> int" where
  "py_int x = (if 0 \<le> x then \<lfloor>x\<rfloor> else \<lceil>x\<rceil>)"

text \<open>
  One iteration of the loop over the events. The state is the variable
  \<open>encoding_symbol\<close> (unbound before the first note or rest, and left as it was by an
  event that is neither a note nor a rest) and the list \<open>encoded_song\<close>.
  \<^verbatim>\<open>
  if isinstance(event, m21.note.Note):
      encoding_symbol = event.pitch.midi
  elif isinstance(event, m21.note.Rest):
      encoding_symbol = "r"
  step_count = int(event.duration.quarterLength / time_step)
  for step in range(step_count):
      if step == 0:
          encoded_song.append(encoding_symbol)
      else:
          encoded_song.append("_")
  \<close>
\<close>

definition encode_event ::
  "rat \<Rightarrow> symbol option \<times> symbol list \<Rightarrow> event \<Rightarrow> error + symbol option \<times> symbol list" where
  "encode_event time_step st event =
     (let encoding_symbol =
            (case event of
               Note p d \<Rightarrow> Some (Midi p)
             | Rest d \<Rightarrow> Some (Str ''r'')
             | Chord d \<Rightarrow> fst st)
      in if time_step = 0 then Inl ZeroDivisionError
         else
           let step_count = py_int (quarterLength event / time_step)
           in if step_count \<le> 0 then Inr (encoding_symbol, snd st)
              else
                (case encoding_symbol of
                   None \<Rightarrow> Inl UnboundLocalError
                 | Some onset \<Rightarrow>
                     Inr (encoding_symbol,
                          snd st @ map (\<lambda>step. if step = 0 then onset else Str ''_'')
                                     [0..<nat step_count])))"

fun encode_loop ::
  "rat \<Rightarrow> symbol option \<times> symbol list \<Rightarrow> event list \<Rightarrow> error + symbol option \<times> symbol list" where
  "encode_loop time_step st [] = Inr st"
| "encode_loop time_step st (event # events) =
     (case encode_event time_step st event of
        Inl err \<Rightarrow> Inl err
      | Inr st' \<Rightarrow> encode_loop time_step st' events)"

text \<open>The list \<open>encoded_song\<close> at the end of the loop.\<close>

definition encoded_list :: "score \<Rightarrow> rat \<Rightarrow> error + symbol list" where
  "encoded_list song time_step =
     (case encode_loop time_step (None, []) (stream_notesAndRests song) of
        Inl err \<Rightarrow> Inl err
      | Inr st \<Rightarrow> Inr (snd st))"

definition encode_song :: "score \<Rightarrow> rat \<Rightarrow> error + string" where
  "encode_song song time_step =
     (case encoded_list song time_step of
        Inl err \<Rightarrow> Inl err
      | Inr encoded_song \<Rightarrow> Inr (py_join '' '' (map py_str encoded_song)))"

section \<open>Corpus assembler\<close>

text \<open>
  \<open>files\<close> is the content of the files of \<open>songs_dir\<close>, in the order of the directory
  walk. The function returns the string that it also writes to \<open>dataset_path\<close>.
  \<^verbatim>\<open>
  new_song_delimiter = "/ " * sequence_length
  songs = ""
  for ...:
      songs = songs + song + " " + new_song_delimiter
  songs = songs[:-1]
  \<close>
\<close>

definition create_universal_dataset :: "string list \<Rightarrow> int \<Rightarrow> string" where
  "create_universal_dataset files sequence_length =
     (let new_song_delimiter = py_repeat ''/ '' sequence_length;
          songs = foldl (\<lambda>songs song. songs @ song @ '' '' @ new_song_delimiter) [] files
      in butlast songs)"

section \<open>Vocabulary builder\<close>

text \<open>
  \<open>list(set(xs))\<close> lists the distinct elements of \<open>xs\<close> in the iteration order of the
  set, which the language leaves open: the order is a parameter \<open>order\<close>, and
  \<open>set_order order xs\<close> says that \<open>order xs\<close> is such a listing.
\<close>

definition set_order :: "('a list \<Rightarrow> 'a list) \<Rightarrow> 'a list \<Rightarrow> bool" where
  "set_order order xs \<longleftrightarrow> distinct (order xs) \<and> set (order xs) = set xs"

text \<open>
  \<^verbatim>\<open>
  vocabulary = list(set(songs.split()))
  mappings.update({symbol: index for index, symbol in enumerate(vocabulary)})
  \<close>
  The result is the dictionary that is written to the vocabulary file.
\<close>

definition dict_of_vocabulary :: "string list \<Rightarrow> (string \<rightharpoonup> int)" where
  "dict_of_vocabulary vocabulary =
     foldl (\<lambda>mappings (index, symbol). mappings(symbol \<mapsto> int index)) Map.empty
       (List.enumerate 0 vocabulary)"

definition create_mapping :: "(string list \<Rightarrow> string list) \<Rightarrow> string \<Rightarrow> (string \<rightharpoonup> int)" where
  "create_mapping order songs =
     (let vocabulary = order (py_split songs) in dict_of_vocabulary vocabulary)"

section \<open>Integer encoding\<close>

text \<open>
  \<open>vocabulary_mapping\<close> is the dictionary read from the vocabulary file.
  \<^verbatim>\<open>
  songs = songs.split()
  for i, item in enumerate(songs):
      songs[i] = vocabulary_mapping[item]
  \<close>
\<close>

fun lookup_all :: "(string \<rightharpoonup> int) \<Rightarrow> string list \<Rightarrow> error + int list" where
  "lookup_all vocabulary_mapping [] = Inr []"
| "lookup_all vocabulary_mapping (item # items) =
     (case vocabulary_mapping item of
        None \<Rightarrow> Inl (KeyError item)
      | Some v \<Rightarrow>
          (case lookup_all vocabulary_mapping items of
             Inl err \<Rightarrow> Inl err
           | Inr vs \<Rightarrow> Inr (v # vs)))"

definition convert_songs_to_int :: "(string \<rightharpoonup> int) \<Rightarrow> string \<Rightarrow> error + int list" where
  "convert_songs_to_int vocabulary_mapping songs = lookup_all vocabulary_mapping (py_split songs)"

section \<open>Sequence generator\<close>

text \<open>
  \<open>xs[a:b]\<close> and \<open>xs[i]\<close> of Python: a negative index counts from the end, a slice
  clips its bounds, an index out of range raises.
\<close>

definition clip_index :: "nat \<Rightarrow> int \<Rightarrow> nat" where
  "clip_index n i = (if i < 0 then nat (max (i + int n) 0) else min (nat i) n)"

definition py_slice :: "'a list \<Rightarrow> int \<Rightarrow> int \<Rightarrow> 'a list" where
  "py_slice xs a b =
     (let lo = clip_index (length xs) a; hi = clip_index (length xs) b
      in take (hi - lo) (drop lo xs))"





section \<open>Auxiliary notions for the statements\<close>

text \<open>A token: a non-empty string without whitespace.\<close>

definition token_ok :: "string \<Rightarrow> bool" where
  "token_ok t \<longleftrightarrow> t \<noteq> [] \<and> (\<forall>c \<in> set t. \<not> is_space c)"

text \<open>
  The symbols that the encoder stores, and the invariant of its loop: the variable
  \<open>encoding_symbol\<close> and the list \<open>encoded_song\<close> hold such symbols only.
\<close>

fun symbol_ok :: "symbol \<Rightarrow> bool" where
  "symbol_ok (Midi p) = True"
| "symbol_ok (Str s) = (s = ''r'' \<or> s = ''_'')"

definition state_ok :: "symbol option \<times> symbol list \<Rightarrow> bool" where
  "state_ok st \<longleftrightarrow> (\<forall>s. fst st = Some s \<longrightarrow> symbol_ok s) \<and> (\<forall>s \<in> set (snd st). symbol_ok s)"

section \<open>Decoder\<close>







text \<open>
  The origin of each token of the corpus, for the statements about windows: the tokens of
  the score at position \<open>n\<close> of the directory walk carry \<open>Some n\<close>, the tokens of the
  delimiter blocks carry \<open>None\<close>.
\<close>

fun origins_from :: "nat \<Rightarrow> string list \<Rightarrow> int \<Rightarrow> (nat option \<times> string) list" where
  "origins_from n [] sequence_length = []"
| "origins_from n (song # files) sequence_length =
     map (Pair (Some n)) (py_split song)
       @ replicate (nat sequence_length) (None, ''/'')
       @ origins_from (Suc n) files sequence_length"

definition corpus_origins :: "string list \<Rightarrow> int \<Rightarrow> (nat option \<times> string) list" where
  "corpus_origins files sequence_length = origins_from 0 files sequence_length"

text \<open>The scores that have a token in a window.\<close>

definition window_scores :: "(nat option \<times> string) list \<Rightarrow> nat set" where
  "window_scores w = {n. Some n \<in> fst ` set w}"

section \<open>Properties of the duration filter\<close>

lemma acceptable_loop_iff:
  "acceptable_loop es D \<longleftrightarrow> (\<forall>e \<in> set es. quarterLength e \<in> set D)"
  by (induction es) auto

lemma has_acceptable_note_durations_iff:
  "has_acceptable_note_durations song D \<longleftrightarrow>
     (\<forall>e \<in> set song. \<not> is_Rest e \<longrightarrow> quarterLength e \<in> set D)"
  by (auto simp: has_acceptable_note_durations_def stream_notes_def acceptable_loop_iff)

lemma has_acceptable_note_durations_empty:
  "has_acceptable_note_durations [] D"
  by (simp add: has_acceptable_note_durations_def stream_notes_def)

text \<open>
  C1. The filter is meant to reject a score as soon as one note or rest has a duration
  outside the accepted set. The loop runs over \<open>stream_notes\<close>, which leaves the rests out: a
  score made of one rest of five quarter notes, a duration that is not accepted, passes
  the filter with the accepted durations of the source.
\<close>

theorem has_acceptable_note_durations_rest_accepted:
  "has_acceptable_note_durations [Rest 5] ACCEPTABLE_DURATIONS = True
   \<and> quarterLength (Rest 5) \<notin> set ACCEPTABLE_DURATIONS"
  by (simp add: has_acceptable_note_durations_def stream_notes_def ACCEPTABLE_DURATIONS_def)

section \<open>Properties of splitting, joining and printing\<close>

declare str_nat.simps [simp del]

lemma split_from_space:
  "is_space c \<Longrightarrow> split_from cur (a @ c # b) = split_from cur a @ split_from [] b"
  by (induction a arbitrary: cur) auto

lemma split_from_token:
  "\<forall>c \<in> set t. \<not> is_space c \<Longrightarrow> split_from cur (t @ rest) = split_from (cur @ t) rest"
  by (induction t arbitrary: cur) auto

lemma py_split_space:
  "is_space c \<Longrightarrow> py_split (a @ c # b) = py_split a @ py_split b"
  by (simp add: py_split_def split_from_space)

lemma is_space_blank [simp]: "is_space CHR '' ''"
  by (simp add: is_space_def)

lemma py_split_Nil [simp]: "py_split [] = []"
  by (simp add: py_split_def)

lemma py_split_token: "token_ok t \<Longrightarrow> py_split t = [t]"
  using split_from_token [of t "[]" "[]"] by (simp add: py_split_def token_ok_def)

lemma py_split_token_space:
  "token_ok t \<Longrightarrow> py_split (t @ CHR '' '' # rest) = t # py_split rest"
  by (simp add: py_split_space py_split_token)

lemma py_split_join:
  "\<forall>t \<in> set toks. token_ok t \<Longrightarrow> py_split (py_join '' '' toks) = toks"
proof (induction "'' ''" toks rule: py_join.induct)
  case 1
  then show ?case by simp
next
  case (2 x)
  then show ?case by (simp add: py_split_token)
next
  case (3 x y ys)
  then show ?case by (simp add: py_split_token_space)
qed

lemma of_char_digit_char: "d < 10 \<Longrightarrow> (of_char (digit_char d) :: nat) = 48 + d"
  by (simp add: digit_char_def)

lemma str_nat_digits: "c \<in> set (str_nat n) \<Longrightarrow> \<exists>d<10. c = digit_char d"
proof (induction n rule: str_nat.induct)
  case (1 n)
  show ?case
  proof (cases "n < 10")
    case True
    with "1.prems" show ?thesis by (auto simp: str_nat.simps [of n])
  next
    case False
    with "1.prems" have "c \<in> set (str_nat (n div 10)) \<or> c = digit_char (n mod 10)"
      by (auto simp: str_nat.simps [of n])
    with False "1.IH" show ?thesis by (metis mod_less_divisor zero_less_numeral)
  qed
qed

lemma str_nat_nonempty: "str_nat n \<noteq> []"
  by (simp add: str_nat.simps [of n])

lemma digit_char_not_space: "d < 10 \<Longrightarrow> \<not> is_space (digit_char d)"
  by (simp add: is_space_def of_char_digit_char)


lemma token_ok_str_int: "token_ok (str_int i)"
  by (auto simp: token_ok_def str_int_def str_nat_nonempty is_space_def
      dest!: str_nat_digits digit_char_not_space [unfolded is_space_def])

section \<open>Properties of the encoder\<close>

lemma token_ok_py_str:
  assumes "symbol_ok s"
  shows "token_ok (py_str s)"
proof (cases s)
  case (Midi p)
  then show ?thesis by (simp add: token_ok_str_int)
next
  case (Str x)
  with assms show ?thesis by (auto simp: token_ok_def is_space_def)
qed

lemma encode_event_ok:
  assumes "encode_event ts st e = Inr st'" and "state_ok st"
  shows "state_ok st'"
proof (cases e)
  case (Note p d)
  with assms show ?thesis
    by (auto simp: encode_event_def Let_def state_ok_def split: if_splits)
next
  case (Rest d)
  with assms show ?thesis
    by (auto simp: encode_event_def Let_def state_ok_def split: if_splits)
next
  case (Chord d)
  with assms show ?thesis
    by (auto simp: encode_event_def Let_def state_ok_def split: if_splits option.splits)
qed

lemma encode_loop_ok:
  "encode_loop ts st es = Inr st' \<Longrightarrow> state_ok st \<Longrightarrow> state_ok st'"
proof (induction es arbitrary: st)
  case Nil
  then show ?case by simp
next
  case (Cons e es)
  from Cons.prems(1) obtain st1 where 1: "encode_event ts st e = Inr st1"
    and 2: "encode_loop ts st1 es = Inr st'"
    by (auto split: sum.splits)
  from 1 Cons.prems(2) have "state_ok st1" by (rule encode_event_ok)
  with 2 show ?case by (rule Cons.IH)
qed







lemma encode_song_split:
  assumes "encode_song song ts = Inr s"
  shows "\<exists>toks. encoded_list song ts = Inr toks \<and> py_split s = map py_str toks"
proof -
  from assms obtain toks where t: "encoded_list song ts = Inr toks"
    and s: "s = py_join '' '' (map py_str toks)"
    by (auto simp: encode_song_def split: sum.splits)
  from t obtain st where l: "encode_loop ts (None, []) song = Inr st" and "toks = snd st"
    by (auto simp: encoded_list_def stream_notesAndRests_def split: sum.splits)
  have "state_ok (None, [])" by (simp add: state_ok_def)
  with l have "state_ok st" by (rule encode_loop_ok)
  with \<open>toks = snd st\<close> have "\<forall>x \<in> set toks. symbol_ok x" by (simp add: state_ok_def)
  then have "\<forall>t \<in> set (map py_str toks). token_ok t"
    by (auto intro: token_ok_py_str)
  then show ?thesis using t s by (simp add: py_split_join)
qed











section \<open>Properties of the decoder\<close>






lemma str_int_codes:
  assumes "c \<in> set (str_int p)"
  shows "(of_char c :: nat) = 45 \<or> (48 \<le> (of_char c :: nat) \<and> (of_char c :: nat) \<le> 57)"
proof (cases "c = CHR ''-''")
  case True
  then show ?thesis by simp
next
  case False
  with assms have "c \<in> set (str_nat (nat (- p))) \<or> c \<in> set (str_nat (nat p))"
    by (auto simp: str_int_def split: if_splits)
  then obtain d where "d < 10" and "c = digit_char d"
    using str_nat_digits by blast
  then show ?thesis by (simp add: of_char_digit_char)
qed













section \<open>Properties of the integer encoding\<close>

lemma lookup_all_Inr_iff:
  "(\<exists>ids. lookup_all m items = Inr ids) \<longleftrightarrow> set items \<subseteq> dom m"
  by (induction items) (auto split: option.splits sum.splits)

lemma lookup_all_Inr:
  "lookup_all m items = Inr ids \<Longrightarrow> ids = map (\<lambda>item. the (m item)) items"
  by (induction items arbitrary: ids) (auto split: option.splits sum.splits)

lemma lookup_all_Inl:
  "lookup_all m items = Inl err \<Longrightarrow> \<exists>item \<in> set items. m item = None \<and> err = KeyError item"
  by (induction items) (auto split: option.splits sum.splits)

text \<open>
  C8. The integer encoding returns a list exactly when every token of its input is a key
  of the vocabulary; the list then has one id for each token, in order, the id that the
  vocabulary gives to the token. Otherwise the run ends with the \<open>KeyError\<close> of a
  token that the vocabulary does not have, and no list is returned.
\<close>

theorem convert_songs_to_int_iff:
  "((\<exists>ids. convert_songs_to_int vocabulary_mapping songs = Inr ids)
      \<longleftrightarrow> set (py_split songs) \<subseteq> dom vocabulary_mapping)
   \<and> (\<forall>ids. convert_songs_to_int vocabulary_mapping songs = Inr ids \<longrightarrow>
          length ids = length (py_split songs)
          \<and> (\<forall>i < length ids. vocabulary_mapping (py_split songs ! i) = Some (ids ! i)))
   \<and> (\<not> set (py_split songs) \<subseteq> dom vocabulary_mapping \<longrightarrow>
          (\<exists>item \<in> set (py_split songs). vocabulary_mapping item = None
             \<and> convert_songs_to_int vocabulary_mapping songs = Inl (KeyError item)))"
proof -
  have A: "(\<exists>ids. convert_songs_to_int vocabulary_mapping songs = Inr ids)
      \<longleftrightarrow> set (py_split songs) \<subseteq> dom vocabulary_mapping"
    by (simp add: convert_songs_to_int_def lookup_all_Inr_iff)
  have B: "length ids = length (py_split songs)
      \<and> (\<forall>i < length ids. vocabulary_mapping (py_split songs ! i) = Some (ids ! i))"
    if a: "convert_songs_to_int vocabulary_mapping songs = Inr ids" for ids
  proof -
    from a have ids: "ids = map (\<lambda>item. the (vocabulary_mapping item)) (py_split songs)"
      by (simp add: convert_songs_to_int_def lookup_all_Inr)
    from a A have sub: "set (py_split songs) \<subseteq> dom vocabulary_mapping" by blast
    have "vocabulary_mapping (py_split songs ! i) = Some (ids ! i)" if "i < length ids" for i
    proof -
      from that ids have i: "i < length (py_split songs)" by simp
      with sub have "py_split songs ! i \<in> dom vocabulary_mapping" by (auto simp: subset_iff)
      with ids i show ?thesis by auto
    qed
    with ids show ?thesis by simp
  qed
  have C: "\<exists>item \<in> set (py_split songs). vocabulary_mapping item = None
      \<and> convert_songs_to_int vocabulary_mapping songs = Inl (KeyError item)"
    if n: "\<not> set (py_split songs) \<subseteq> dom vocabulary_mapping"
  proof -
    from n have "\<not> (\<exists>ids. lookup_all vocabulary_mapping (py_split songs) = Inr ids)"
      by (simp add: lookup_all_Inr_iff)
    then obtain err where "lookup_all vocabulary_mapping (py_split songs) = Inl err"
      by (cases "lookup_all vocabulary_mapping (py_split songs)") auto
    then show ?thesis
      using lookup_all_Inl [of vocabulary_mapping "py_split songs" err]
      by (auto simp: convert_songs_to_int_def)
  qed
  from A B C show ?thesis by blast
qed

theorem convert_songs_to_int_iff_witness:
  "set (py_split ''60 _ 60'') \<subseteq> dom [''60'' \<mapsto> (0::int), ''_'' \<mapsto> 1]
   \<and> convert_songs_to_int [''60'' \<mapsto> (0::int), ''_'' \<mapsto> 1] ''60 _ 60'' = Inr [0, 1, 0]
   \<and> \<not> set (py_split ''60 r'') \<subseteq> dom [''60'' \<mapsto> (0::int), ''_'' \<mapsto> 1]
   \<and> (\<exists>item. convert_songs_to_int [''60'' \<mapsto> (0::int), ''_'' \<mapsto> 1] ''60 r'' = Inl (KeyError item))"
proof -
  have e: "convert_songs_to_int [''60'' \<mapsto> (0::int), ''_'' \<mapsto> 1] ''60 _ 60'' = Inr [0, 1, 0]"
    by (simp add: convert_songs_to_int_def py_split_def is_space_def)
  have n: "\<not> set (py_split ''60 r'') \<subseteq> dom [''60'' \<mapsto> (0::int), ''_'' \<mapsto> 1]"
    by (simp add: py_split_def is_space_def)
  from convert_songs_to_int_iff [of "[''60'' \<mapsto> (0::int), ''_'' \<mapsto> 1]" "''60 _ 60''"] e
  have "set (py_split ''60 _ 60'') \<subseteq> dom [''60'' \<mapsto> (0::int), ''_'' \<mapsto> 1]"
    by blast
  moreover from convert_songs_to_int_iff [of "[''60'' \<mapsto> (0::int), ''_'' \<mapsto> 1]" "''60 r''"] n
  have "\<exists>item. convert_songs_to_int [''60'' \<mapsto> (0::int), ''_'' \<mapsto> 1] ''60 r'' = Inl (KeyError item)"
    by blast
  ultimately show ?thesis using e n by blast
qed

section \<open>Properties of the vocabulary\<close>

lemma dict_of_vocabulary_snoc:
  "dict_of_vocabulary (xs @ [x]) = (dict_of_vocabulary xs)(x \<mapsto> int (length xs))"
  by (simp add: dict_of_vocabulary_def enumerate_append_eq)

lemma dict_of_vocabulary_Nil: "dict_of_vocabulary [] = Map.empty"
  by (simp add: dict_of_vocabulary_def)

lemma dom_dict_of_vocabulary: "dom (dict_of_vocabulary xs) = set xs"
proof (induction xs rule: rev_induct)
  case Nil
  show ?case by (simp add: dict_of_vocabulary_Nil)
next
  case (snoc x xs)
  have "dom (dict_of_vocabulary (xs @ [x])) = insert x (dom (dict_of_vocabulary xs))"
    by (simp only: dict_of_vocabulary_snoc dom_fun_upd) simp
  with snoc show ?case by simp
qed

lemma dict_of_vocabulary_nth:
  "distinct xs \<Longrightarrow> i < length xs \<Longrightarrow> dict_of_vocabulary xs (xs ! i) = Some (int i)"
proof (induction xs rule: rev_induct)
  case Nil
  then show ?case by simp
next
  case (snoc x xs)
  show ?case
  proof (cases "i < length xs")
    case True
    with snoc.prems have "xs ! i \<noteq> x" by (auto simp: in_set_conv_nth)
    with True snoc show ?thesis by (simp add: dict_of_vocabulary_snoc nth_append)
  next
    case False
    with snoc.prems have "i = length xs" by simp
    then show ?thesis by (simp add: dict_of_vocabulary_snoc)
  qed
qed

text \<open>
  C4. Whatever the iteration order of the set of tokens, the dictionary built from a
  corpus has exactly the distinct tokens of the corpus as keys, and it maps them one to
  one onto the integers from \<open>0\<close> up to, and without, the number of distinct tokens.
\<close>

theorem create_mapping_bijection:
  assumes "set_order order (py_split songs)"
  shows "dom (create_mapping order songs) = set (py_split songs)
    \<and> bij_betw (\<lambda>t. the (create_mapping order songs t)) (set (py_split songs))
         {0..<int (card (set (py_split songs)))}
    \<and> ran (create_mapping order songs) = {0..<int (card (set (py_split songs)))}"
proof -
  define v where "v = order (py_split songs)"
  define m where "m = create_mapping order songs"
  from assms have dv: "distinct v" and sv: "set v = set (py_split songs)"
    by (simp_all add: v_def set_order_def)
  then have N: "card (set (py_split songs)) = length v"
    using distinct_card [of v] by simp
  have m: "m = dict_of_vocabulary v"
    by (simp add: m_def v_def create_mapping_def)
  have key: "m (v ! i) = Some (int i)" if "i < length v" for i
    using dv that by (simp add: m dict_of_vocabulary_nth)
  have dom: "dom m = set v" by (simp add: m dom_dict_of_vocabulary)
  have inj: "inj_on (\<lambda>t. the (m t)) (set v)"
  proof (rule inj_onI)
    fix a b assume "a \<in> set v" and "b \<in> set v" and eq: "the (m a) = the (m b)"
    then obtain i j where "i < length v" "a = v ! i" "j < length v" "b = v ! j"
      by (auto simp: in_set_conv_nth)
    with eq key show "a = b" by simp
  qed
  have img: "(\<lambda>t. the (m t)) ` set v = {0..<int (length v)}"
  proof (intro set_eqI iffI)
    fix x assume "x \<in> (\<lambda>t. the (m t)) ` set v"
    then obtain i where "i < length v" and "x = the (m (v ! i))"
      by (auto simp: in_set_conv_nth)
    with key show "x \<in> {0..<int (length v)}" by simp
  next
    fix x assume x: "x \<in> {0..<int (length v)}"
    then have i: "nat x < length v" by auto
    with key have "the (m (v ! nat x)) = x" using x by simp
    with i show "x \<in> (\<lambda>t. the (m t)) ` set v" by (metis imageI nth_mem)
  qed
  have ran: "ran m = {0..<int (length v)}"
  proof (intro set_eqI iffI)
    fix y assume "y \<in> ran m"
    then obtain t where t: "m t = Some y" by (auto simp: ran_def)
    then have "t \<in> set v" using dom by auto
    with t have "y \<in> (\<lambda>t. the (m t)) ` set v" by force
    with img show "y \<in> {0..<int (length v)}" by simp
  next
    fix y assume y: "y \<in> {0..<int (length v)}"
    then have "nat y < length v" by auto
    from key [OF this] y show "y \<in> ran m" by (auto simp: ran_def)
  qed
  from inj img have "bij_betw (\<lambda>t. the (m t)) (set v) {0..<int (length v)}"
    by (simp add: bij_betw_def)
  with dom ran show ?thesis
    unfolding m_def [symmetric] N sv by simp
qed

theorem create_mapping_bijection_witness:
  "set_order remdups (py_split ''60 _ r 62 _'')
   \<and> dom (create_mapping remdups ''60 _ r 62 _'') = {''60'', ''_'', ''r'', ''62''}
   \<and> bij_betw (\<lambda>t. the (create_mapping remdups ''60 _ r 62 _'' t))
        {''60'', ''_'', ''r'', ''62''} {0..<4}
   \<and> ran (create_mapping remdups ''60 _ r 62 _'') = {0..<4}"
proof -
  have h: "set_order remdups (py_split ''60 _ r 62 _'')"
    by (simp add: set_order_def)
  have s: "py_split ''60 _ r 62 _'' = [''60'', ''_'', ''r'', ''62'', ''_'']"
    by (simp add: py_split_def is_space_def)
  have c: "int (card (set (py_split ''60 _ r 62 _''))) = 4"
    by (simp only: s card_set) simp
  have t: "set (py_split ''60 _ r 62 _'') = {''60'', ''_'', ''r'', ''62''}"
    by (auto simp: s)
  from create_mapping_bijection [OF h] h show ?thesis
    unfolding c t by simp
qed

section \<open>Properties of the sequence generator\<close>








section \<open>Properties of the corpus\<close>

lemma foldl_songs:
  "foldl (\<lambda>songs song. songs @ song @ sp @ d) acc files =
     acc @ concat (map (\<lambda>song. song @ sp @ d) files)"
  by (induction files arbitrary: acc) simp_all

lemma create_universal_dataset_concat:
  "create_universal_dataset files k =
     butlast (concat (map (\<lambda>song. song @ '' '' @ concat (replicate (nat k) ''/ '')) files))"
  unfolding create_universal_dataset_def Let_def py_repeat_def foldl_songs by simp

lemma token_ok_slash: "token_ok ''/''"
  by (simp add: token_ok_def is_space_def)

lemma py_split_delimiter:
  "py_split (concat (replicate k ''/ '') @ rest) = replicate k ''/'' @ py_split rest"
proof (induction k)
  case 0
  then show ?case by simp
next
  case (Suc k)
  have "py_split (''/'' @ CHR '' '' # (concat (replicate k ''/ '') @ rest)) =
      ''/'' # py_split (concat (replicate k ''/ '') @ rest)"
    using token_ok_slash by (rule py_split_token_space)
  with Suc show ?case by simp
qed

lemma py_split_block:
  "py_split (song @ CHR '' '' # concat (replicate k ''/ '') @ rest) =
     py_split song @ replicate k ''/'' @ py_split rest"
proof -
  have "py_split (song @ CHR '' '' # (concat (replicate k ''/ '') @ rest)) =
      py_split song @ py_split (concat (replicate k ''/ '') @ rest)"
    by (rule py_split_space) simp
  then show ?thesis by (simp add: py_split_delimiter)
qed

lemma py_split_blocks:
  "py_split (concat (map (\<lambda>song. song @ CHR '' '' # concat (replicate k ''/ '')) files)) =
     concat (map (\<lambda>song. py_split song @ replicate k ''/'') files)"
proof (induction files)
  case Nil
  then show ?case by simp
next
  case (Cons song files)
  then show ?case by (simp add: py_split_block)
qed

lemma delimiter_last:
  "last (song @ CHR '' '' # concat (replicate k ''/ '')) = CHR '' ''"
  by (induction k) (simp_all add: last_append)

lemma blocks_last:
  assumes "files \<noteq> []"
  shows "last (concat (map (\<lambda>song. song @ CHR '' '' # concat (replicate k ''/ '')) files)) = CHR '' ''"
  using assms
proof (induction files rule: rev_induct)
  case Nil
  then show ?case by simp
next
  case (snoc song files)
  have "last (concat (map (\<lambda>song. song @ CHR '' '' # concat (replicate k ''/ '')) files)
      @ (song @ CHR '' '' # concat (replicate k ''/ ''))) =
      last (song @ CHR '' '' # concat (replicate k ''/ ''))"
    by (rule last_appendR) simp
  then show ?case by (simp add: delimiter_last)
qed

lemma blocks_nonempty:
  assumes "files \<noteq> []"
  shows "concat (map (\<lambda>song. song @ CHR '' '' # concat (replicate k ''/ '')) files) \<noteq> []"
  using assms by (cases files) simp_all

lemma blocks_trailing_space:
  assumes "files \<noteq> []"
  shows "concat (map (\<lambda>song. song @ CHR '' '' # concat (replicate (nat k) ''/ '')) files) =
    create_universal_dataset files k @ [CHR '' '']"
proof -
  let ?X = "concat (map (\<lambda>song. song @ CHR '' '' # concat (replicate (nat k) ''/ '')) files)"
  from assms have "?X \<noteq> []" by (rule blocks_nonempty)
  then have "?X = butlast ?X @ [last ?X]" by simp
  moreover from assms have "last ?X = CHR '' ''" by (rule blocks_last)
  moreover have "create_universal_dataset files k = butlast ?X"
    using create_universal_dataset_concat [of files k] by simp
  ultimately show ?thesis by simp
qed

lemma py_split_create_universal_dataset:
  "py_split (create_universal_dataset files k) =
     concat (map (\<lambda>song. py_split song @ replicate (nat k) ''/'') files)"
proof (cases "files = []")
  case True
  then show ?thesis by (simp add: create_universal_dataset_concat)
next
  case False
  let ?X = "concat (map (\<lambda>song. song @ CHR '' '' # concat (replicate (nat k) ''/ '')) files)"
  have "py_split (create_universal_dataset files k @ CHR '' '' # []) =
      py_split (create_universal_dataset files k) @ py_split []"
    by (rule py_split_space) simp
  then have "py_split (create_universal_dataset files k) = py_split ?X"
    by (simp add: blocks_trailing_space [OF False])
  then show ?thesis by (simp only: py_split_blocks)
qed

lemma count_list_replicate: "count_list (replicate k x) x = k"
  by (induction k) simp_all

lemma count_list_blocks:
  assumes "\<forall>song \<in> set files. d \<notin> set (f song)"
  shows "count_list (concat (map (\<lambda>song. f song @ replicate k d) files)) d = k * length files"
  using assms by (induction files) (simp_all add: count_list_replicate)

text \<open>
  C5. The corpus is the concatenation, over the scores, of the score's content, one space
  and \<open>sequence_length\<close> times the delimiter \<open>/\<close> followed by a space, without its
  last character; when there is at least one score that last character is a space. For
  scores that do not contain the delimiter token themselves, as the encoder's output never
  does, the corpus has \<open>sequence_length\<close> delimiter tokens for each score.
\<close>

theorem create_universal_dataset_delimiters:
  assumes "0 \<le> sequence_length" and "\<forall>song \<in> set files. ''/'' \<notin> set (py_split song)"
  shows "create_universal_dataset files sequence_length =
      butlast (concat (map (\<lambda>song. song @ '' '' @ concat (replicate (nat sequence_length) ''/ ''))
        files))
    \<and> (files \<noteq> [] \<longrightarrow>
         concat (map (\<lambda>song. song @ '' '' @ concat (replicate (nat sequence_length) ''/ '')) files) =
           create_universal_dataset files sequence_length @ '' '')
    \<and> int (count_list (py_split (create_universal_dataset files sequence_length)) ''/'') =
         sequence_length * int (length files)"
proof -
  from assms(2)
  have "count_list (py_split (create_universal_dataset files sequence_length)) ''/'' =
      nat sequence_length * length files"
    by (simp only: py_split_create_universal_dataset count_list_blocks)
  with assms(1) have "int (count_list (py_split (create_universal_dataset files sequence_length)) ''/'') =
         sequence_length * int (length files)"
    by simp
  moreover have "files \<noteq> [] \<longrightarrow>
         concat (map (\<lambda>song. song @ '' '' @ concat (replicate (nat sequence_length) ''/ '')) files) =
           create_universal_dataset files sequence_length @ '' ''"
    using blocks_trailing_space [of files sequence_length] by simp
  ultimately show ?thesis
    using create_universal_dataset_concat [of files sequence_length] by blast
qed

lemma str_int_not_slash: "str_int p \<noteq> ''/''"
proof
  assume "str_int p = ''/''"
  then have "CHR ''/'' \<in> set (str_int p)" by simp
  from str_int_codes [OF this] show False by simp
qed

lemma py_str_not_slash:
  assumes "symbol_ok s"
  shows "py_str s \<noteq> ''/''"
proof (cases s)
  case (Midi p)
  then show ?thesis by (simp add: str_int_not_slash)
next
  case (Str x)
  with assms show ?thesis by auto
qed

lemma encode_song_no_delimiter:
  assumes "encode_song song ts = Inr s"
  shows "''/'' \<notin> set (py_split s)"
proof
  assume a: "''/'' \<in> set (py_split s)"
  from assms obtain toks where t: "encoded_list song ts = Inr toks"
    and sp: "py_split s = map py_str toks"
    using encode_song_split by blast
  from t obtain st where l: "encode_loop ts (None, []) song = Inr st" and "toks = snd st"
    by (auto simp: encoded_list_def stream_notesAndRests_def split: sum.splits)
  have "state_ok (None, [])" by (simp add: state_ok_def)
  with l have "state_ok st" by (rule encode_loop_ok)
  with \<open>toks = snd st\<close> have ok: "\<forall>x \<in> set toks. symbol_ok x" by (simp add: state_ok_def)
  from a sp obtain x where "x \<in> set toks" and "py_str x = ''/''" by auto
  with ok show False using py_str_not_slash [of x] by simp
qed

theorem create_universal_dataset_delimiters_witness:
  "(0::int) \<le> 4
   \<and> ''/'' \<notin> set (py_split ''60 _ r'') \<and> ''/'' \<notin> set (py_split ''62 _ _ _'')
   \<and> create_universal_dataset [''60 _ r'', ''62 _ _ _''] 4 = ''60 _ r / / / / 62 _ _ _ / / / /''
   \<and> int (count_list (py_split ''60 _ r / / / / 62 _ _ _ / / / /'') ''/'') = 8"
proof -
  have h1: "(0::int) \<le> 4" by simp
  have h2: "\<forall>song \<in> set [''60 _ r'', ''62 _ _ _'']. ''/'' \<notin> set (py_split song)"
    by (simp add: py_split_def is_space_def)
  have e: "create_universal_dataset [''60 _ r'', ''62 _ _ _''] 4 = ''60 _ r / / / / 62 _ _ _ / / / /''"
    by (simp add: create_universal_dataset_def py_repeat_def eval_nat_numeral)
  from create_universal_dataset_delimiters [OF h1 h2]
  have "int (count_list (py_split (create_universal_dataset [''60 _ r'', ''62 _ _ _''] 4)) ''/'') =
      4 * int (length [''60 _ r'', ''62 _ _ _''])"
    by blast
  then have "int (count_list (py_split ''60 _ r / / / / 62 _ _ _ / / / /'') ''/'') = 8"
    unfolding e by simp
  with h1 h2 e show ?thesis by simp
qed

section \<open>Windows over the corpus\<close>

lemma map_snd_origins_from:
  "map snd (origins_from n files k) =
     concat (map (\<lambda>song. py_split song @ replicate (nat k) ''/'') files)"
  by (induction files arbitrary: n) (simp_all add: comp_def)

lemma map_snd_corpus_origins:
  "map snd (corpus_origins files k) = py_split (create_universal_dataset files k)"
  by (simp only: corpus_origins_def map_snd_origins_from py_split_create_universal_dataset)

lemma window_head:
  assumes "j \<le> length S"
  shows "set (take (length D) (drop j (S @ D @ L))) \<subseteq> set S \<union> set D"
proof -
  from assms have "take (length D) (drop j (S @ D @ L)) = take (length D) (drop j S @ D)"
    by simp
  also have "set \<dots> \<subseteq> set (drop j S @ D)" by (rule set_take_subset)
  also have "\<dots> \<subseteq> set S \<union> set D" using set_drop_subset [of j S] by auto
  finally show ?thesis .
qed

lemma window_tail:
  assumes "length S \<le> j"
  shows "set (take (length D) (drop j (S @ D @ L)))
    \<subseteq> set D \<union> set (take (length D) (drop (j - length S - length D) L))"
proof -
  let ?m = "j - length S"
  from assms have "take (length D) (drop j (S @ D @ L)) =
      take (length D) (drop ?m D) @ take (length D - (length D - ?m)) (drop (?m - length D) L)"
    by simp
  moreover have "set (take (length D) (drop ?m D)) \<subseteq> set D"
    using set_take_subset [of "length D" "drop ?m D"] set_drop_subset [of ?m D] by blast
  moreover have "set (take (length D - (length D - ?m)) (drop (?m - length D) L))
      \<subseteq> set (take (length D) (drop (?m - length D) L))"
    by (rule set_take_subset_set_take) simp
  ultimately show ?thesis by auto
qed

lemma origins_window:
  assumes "Some a \<in> fst ` set (take K (drop j (origins_from n files (int K))))"
    and "Some b \<in> fst ` set (take K (drop j (origins_from n files (int K))))"
  shows "a = b"
  using assms
proof (induction files arbitrary: n j)
  case Nil
  then show ?case by simp
next
  case (Cons song files)
  let ?S = "map (Pair (Some n)) (py_split song)"
  let ?D = "replicate K (None :: nat option, ''/'')"
  let ?L = "origins_from (Suc n) files (int K)"
  let ?W = "take K (drop j (origins_from n (song # files) (int K)))"
  have W: "?W = take (length ?D) (drop j (?S @ ?D @ ?L))" by simp
  show ?case
  proof (cases "j \<le> length ?S")
    case True
    from window_head [OF True, of ?D ?L] W have "set ?W \<subseteq> set ?S \<union> set ?D" by simp
    then have "fst ` set ?W \<subseteq> {Some n, None}" by auto
    with Cons.prems show ?thesis by auto
  next
    case False
    then have "length ?S \<le> j" by simp
    from window_tail [OF this, of ?D ?L] W
    have "set ?W \<subseteq> set ?D \<union> set (take K (drop (j - length ?S - K) ?L))" by simp
    then have "fst ` set ?W \<subseteq> insert None (fst ` set (take K (drop (j - length ?S - K) ?L)))"
      by auto
    with Cons.prems
    have "Some a \<in> fst ` set (take K (drop (j - length ?S - K) ?L))"
      and "Some b \<in> fst ` set (take K (drop (j - length ?S - K) ?L))"
      by auto
    then show ?thesis by (rule Cons.IH)
  qed
qed

lemma py_slice_nat:
  "py_slice xs (int i) (int i + int K) = take K (drop i xs)"
proof (cases "i \<le> length xs")
  case True
  then have "clip_index (length xs) (int i) = i"
    and "clip_index (length xs) (int i + int K) = min (i + K) (length xs)"
    by (simp_all add: clip_index_def nat_add_distrib)
  with True have "py_slice xs (int i) (int i + int K) = take (min (i + K) (length xs) - i) (drop i xs)"
    by (simp add: py_slice_def)
  also have "\<dots> = take K (drop i xs)"
    by (cases "i + K \<le> length xs") (simp_all add: min_def)
  finally show ?thesis .
next
  case False
  then show ?thesis by (simp add: py_slice_def clip_index_def)
qed

lemma origins_from_delimiter:
  "(None, t) \<in> set (origins_from n files k) \<Longrightarrow> t = ''/''"
  by (induction files arbitrary: n) auto

text \<open>
  C6. The tokens of the corpus are the tokens of the scores, in order, each score followed
  by its block of \<open>sequence_length\<close> delimiter tokens. No window of
  \<open>sequence_length\<close> consecutive tokens of the corpus holds tokens of two distinct
  scores: whatever lies in a window beside the tokens of one score is delimiter tokens of
  the blocks.
\<close>

theorem windows_within_one_score:
  assumes "0 \<le> sequence_length"
  shows "map snd (corpus_origins files sequence_length) =
      py_split (create_universal_dataset files sequence_length)
    \<and> (\<forall>t. (None, t) \<in> set (corpus_origins files sequence_length) \<longrightarrow> t = ''/'')
    \<and> (\<forall>i a b.
         a \<in> window_scores (py_slice (corpus_origins files sequence_length) (int i)
                (int i + sequence_length))
         \<and> b \<in> window_scores (py_slice (corpus_origins files sequence_length) (int i)
                (int i + sequence_length))
         \<longrightarrow> a = b)"
proof -
  from assms obtain K where K: "sequence_length = int K"
    by (metis nat_0_le)
  have "a = b"
    if "a \<in> window_scores (py_slice (corpus_origins files (int K)) (int i) (int i + int K))"
      and "b \<in> window_scores (py_slice (corpus_origins files (int K)) (int i) (int i + int K))"
    for i a b
    using that origins_window [of a K i 0 files b]
    by (simp add: window_scores_def py_slice_nat corpus_origins_def)
  moreover have "t = ''/''" if "(None, t) \<in> set (corpus_origins files (int K))" for t
    using that unfolding corpus_origins_def by (rule origins_from_delimiter)
  ultimately show ?thesis
    unfolding K using map_snd_corpus_origins [of files "int K"] by blast
qed

theorem windows_within_one_score_witness:
  "(0::int) \<le> 4
   \<and> window_scores (py_slice (corpus_origins [''60 _ r'', ''62 _ _ _''] 4) (int 1) (int 1 + 4)) = {0}
   \<and> map snd (corpus_origins [''60 _ r'', ''62 _ _ _''] 4) =
        py_split (create_universal_dataset [''60 _ r'', ''62 _ _ _''] 4)"
proof -
  have h1: "(0::int) \<le> 4" by simp
  have m: "0 \<in> window_scores (py_slice (corpus_origins [''60 _ r'', ''62 _ _ _''] 4) (int 1) (int 1 + 4))"
    unfolding window_scores_def mem_Collect_eq by code_simp
  from windows_within_one_score [OF h1, of "[''60 _ r'', ''62 _ _ _'']"] m h1
  show ?thesis by blast
qed

end
